theory Spec2Isabelle
  imports Main "HOL-Library.AList" "HOL-Library.Sublist"
begin

section \<open>The filesystem seen by synchronizer.py\<close>

text \<open>
  The program keeps no data structure of its own: all of its state is the filesystem, which
  it reads and changes through \<^verbatim>\<open>os\<close>, \<^verbatim>\<open>os.path\<close> and \<^verbatim>\<open>shutil\<close>. The model is one
  filesystem holding the source tree and the replica tree side by side, so that roots
  that overlap are inputs like any other.

  A path is a path string cut at its slashes: the list of its components, the empty list
  for the empty string. An entry is a regular file (content, modification time, change
  time) or a directory (modification time); the filesystem has no symbolic links,
  permissions or special files. It is an association list from locations to entries, a
  location being the list of names that leads to the entry from the directory in which the
  program is started; its order is the order in which \<^verbatim>\<open>os.scandir\<close> lists entries.
\<close>

type_synonym path = "string list"

datatype entry = File (content: string) (mtime: nat) (ctime: nat) | Dir (dmtime: nat)

type_synonym filesystem = "(path \<times> entry) list"

datatype error =
    FileNotFoundError | FileExistsError | NotADirectoryError | IsADirectoryError
  | DirectoryNotEmpty | SameFileError | ValueError | OverflowError

fun is_dir :: "entry option \<Rightarrow> bool" where
  "is_dir (Some (Dir m)) = True"
| "is_dir e = False"

fun is_file :: "entry option \<Rightarrow> bool" where
  "is_file (Some (File c m t)) = True"
| "is_file e = False"

fun st_mtime :: "entry \<Rightarrow> nat" where
  "st_mtime (File c m t) = m"
| "st_mtime (Dir m) = m"

text \<open>A directory's change time moves with its modification time when entries are added
  or removed, the only changes to directories in the model.\<close>

fun st_ctime :: "entry \<Rightarrow> nat" where
  "st_ctime (File c m t) = t"
| "st_ctime (Dir m) = m"

text \<open>
  \<^verbatim>\<open>os.path.relpath(root, folder)\<close> yields \<^verbatim>\<open>"."\<close> for the folder itself, and the program
  joins that onto the other root, so paths such as \<^verbatim>\<open>replica/./a\<close> reach the system calls
  and the log. Components \<^verbatim>\<open>"."\<close> are kept in paths and resolved by the primitives: the
  location of a path is the path without them, and a path that ends in \<^verbatim>\<open>"."\<close> names a
  directory or nothing. The empty path names nothing, as the empty string does. A component
  \<^verbatim>\<open>".."\<close> is not resolved: the properties below are stated for roots made of proper names,
  and no entry of a well-formed filesystem has such a name.
\<close>

definition norm :: "path \<Rightarrow> path" where
  "norm p = filter (\<lambda>c. c \<noteq> ''.'') p"

definition ends_dot :: "path \<Rightarrow> bool" where
  "ends_dot p = (p \<noteq> [] \<and> last p = ''.'')"

text \<open>The error of resolving a normalised path with no entry: \<^verbatim>\<open>ENOTDIR\<close> when a
  regular file is in the way, \<^verbatim>\<open>ENOENT\<close> otherwise.\<close>

definition missing :: "filesystem \<Rightarrow> path \<Rightarrow> error" where
  "missing fs q =
     (if list_ex (\<lambda>r. is_file (map_of fs r)) (prefixes q) then NotADirectoryError
      else FileNotFoundError)"

definition stat :: "filesystem \<Rightarrow> path \<Rightarrow> error + entry" where
  "stat fs p =
     (if p = [] then Inl FileNotFoundError
      else (case map_of fs (norm p) of
              None \<Rightarrow> Inl (missing fs (norm p))
            | Some e \<Rightarrow>
                if ends_dot p \<and> \<not> is_dir (Some e) then Inl NotADirectoryError else Inr e))"

text \<open>\<^verbatim>\<open>os.path.exists\<close> and \<^verbatim>\<open>os.path.isdir\<close> turn every error of \<^verbatim>\<open>os.stat\<close> into False.\<close>

definition os_path_exists :: "filesystem \<Rightarrow> path \<Rightarrow> bool" where
  "os_path_exists fs p = (case stat fs p of Inl e \<Rightarrow> False | Inr e \<Rightarrow> True)"

definition os_path_isdir :: "filesystem \<Rightarrow> path \<Rightarrow> bool" where
  "os_path_isdir fs p = (case stat fs p of Inl e \<Rightarrow> False | Inr e \<Rightarrow> is_dir (Some e))"

text \<open>The entries directly inside the directory at a normalised path, in listing order.\<close>

definition scandir :: "filesystem \<Rightarrow> path \<Rightarrow> (string \<times> entry) list" where
  "scandir fs q = map (\<lambda>(r, e). (last r, e)) (filter (\<lambda>(r, e). r \<noteq> [] \<and> butlast r = q) fs)"

definition os_listdir :: "filesystem \<Rightarrow> path \<Rightarrow> error + string list" where
  "os_listdir fs p =
     (case stat fs p of
        Inl e \<Rightarrow> Inl e
      | Inr (File c m t) \<Rightarrow> Inl NotADirectoryError
      | Inr (Dir m) \<Rightarrow> Inr (map fst (scandir fs (norm p))))"

text \<open>Adding or removing an entry stamps the directory that holds it.\<close>

definition touch :: "nat \<Rightarrow> path \<Rightarrow> filesystem \<Rightarrow> filesystem" where
  "touch now q fs = (if is_dir (map_of fs q) then AList.update q (Dir now) fs else fs)"

definition os_mkdir :: "nat \<Rightarrow> path \<Rightarrow> filesystem \<Rightarrow> error + filesystem" where
  "os_mkdir now p fs =
     (let q = norm p in
      if p = [] then Inl FileNotFoundError else
      case map_of fs q of
        Some e \<Rightarrow> if ends_dot p \<and> is_file (Some e) then Inl NotADirectoryError
                  else Inl FileExistsError
      | None \<Rightarrow>
          if ends_dot p then Inl (missing fs q)
          else (case map_of fs (butlast q) of
                  Some (Dir m) \<Rightarrow> Inr (touch now (butlast q) (AList.update q (Dir now) fs))
                | Some (File c m t) \<Rightarrow> Inl NotADirectoryError
                | None \<Rightarrow> Inl (missing fs q)))"

text \<open>
  \<^verbatim>\<open>os.makedirs(name)\<close> with \<^verbatim>\<open>exist_ok=False\<close>: when the head of the path does not exist
  it is made first (an EEXIST from that is swallowed), a tail \<^verbatim>\<open>"."\<close> then needs nothing
  more, and otherwise the last component is made with \<^verbatim>\<open>mkdir\<close>. A failure keeps the
  directories made so far, so the error carries the filesystem.
\<close>

function os_makedirs :: "nat \<Rightarrow> path \<Rightarrow> filesystem \<Rightarrow> error \<times> filesystem + filesystem" where
  "os_makedirs now p fs =
     (if p \<noteq> [] \<and> butlast p \<noteq> [] \<and> \<not> os_path_exists fs (butlast p) then
        (case os_makedirs now (butlast p) fs of
           Inl (e, fs') \<Rightarrow>
             if e = FileExistsError then
               (if last p = ''.'' then Inr fs'
                else (case os_mkdir now p fs' of Inl e' \<Rightarrow> Inl (e', fs') | Inr fs'' \<Rightarrow> Inr fs''))
             else Inl (e, fs')
         | Inr fs' \<Rightarrow>
             if last p = ''.'' then Inr fs'
             else (case os_mkdir now p fs' of Inl e' \<Rightarrow> Inl (e', fs') | Inr fs'' \<Rightarrow> Inr fs''))
      else (case os_mkdir now p fs of Inl e' \<Rightarrow> Inl (e', fs) | Inr fs'' \<Rightarrow> Inr fs''))"
  by pat_completeness auto
termination
  by (relation "measure (\<lambda>(now, p, fs). length p)") auto

declare os_makedirs.simps [simp del]

text \<open>
  \<^verbatim>\<open>shutil.copy2(src, dst)\<close>: a destination that is a directory stands for the file of the
  same name inside it; copying a file onto itself is refused; the source is opened for
  reading and the destination for writing (created, or truncated); then content,
  modification time and mode are copied. The copy's change time is the time of the copy.
\<close>

definition shutil_copy2 :: "nat \<Rightarrow> path \<Rightarrow> path \<Rightarrow> filesystem \<Rightarrow> error + filesystem" where
  "shutil_copy2 now src dst fs =
     (let dst' = (if os_path_isdir fs dst then dst @ [last src] else dst);
          q = norm dst'
      in if os_path_exists fs src \<and> os_path_exists fs dst' \<and> norm src = q then Inl SameFileError
         else
           (case stat fs src of
              Inl e \<Rightarrow> Inl e
            | Inr (Dir m) \<Rightarrow> Inl IsADirectoryError
            | Inr (File c m t) \<Rightarrow>
                (case stat fs dst' of
                   Inr (Dir m') \<Rightarrow> Inl IsADirectoryError
                 | Inr (File c' m' t') \<Rightarrow> Inr (AList.update q (File c m now) fs)
                 | Inl e \<Rightarrow>
                     (case map_of fs q of
                        Some e' \<Rightarrow> Inl e
                      | None \<Rightarrow>
                          if is_dir (map_of fs (butlast q)) \<and> \<not> ends_dot dst'
                          then Inr (touch now (butlast q) (AList.update q (File c m now) fs))
                          else Inl (missing fs q)))))"

definition os_remove :: "nat \<Rightarrow> path \<Rightarrow> filesystem \<Rightarrow> error + filesystem" where
  "os_remove now p fs =
     (case stat fs p of
        Inl e \<Rightarrow> Inl e
      | Inr (Dir m) \<Rightarrow> Inl IsADirectoryError
      | Inr (File c m t) \<Rightarrow> Inr (touch now (butlast (norm p)) (AList.delete (norm p) fs)))"

definition os_rmdir :: "nat \<Rightarrow> path \<Rightarrow> filesystem \<Rightarrow> error + filesystem" where
  "os_rmdir now p fs =
     (case stat fs p of
        Inl e \<Rightarrow> Inl e
      | Inr (File c m t) \<Rightarrow> Inl NotADirectoryError
      | Inr (Dir m) \<Rightarrow>
          if scandir fs (norm p) \<noteq> [] then Inl DirectoryNotEmpty
          else Inr (touch now (butlast (norm p)) (AList.delete (norm p) fs)))"

section \<open>Events, the log and the program state\<close>

text \<open>
  A log line is kept as the event it reports: what happened, the path as the program
  formats it, and the timestamp before \<^verbatim>\<open>strftime\<close>. The log file lies outside the two
  trees; its path names a regular file (possibly not yet created, which is the empty
  list of lines) or something \<^verbatim>\<open>open(log_file, "a")\<close> cannot open, a directory.

  The state of a run is the filesystem, the log file, the lines printed on the console and
  the reading of the clock. The clock stands still during a run: any reading can be given
  as input, and operations stamp what they change with it.
\<close>

datatype event =
    File_Created path nat | File_Modified path nat | Folder_Created path nat
  | File_Deleted path nat | Folder_Deleted path nat

datatype log_target = Log_File "event list" | Log_Directory

record state =
  disk :: filesystem
  log_file :: log_target
  console :: "event list"
  clock :: nat

text \<open>A call returns the new state, or raises: the error and the state at that moment.\<close>

type_synonym result = "error \<times> state + state"

definition log_and_print :: "event \<Rightarrow> state \<Rightarrow> result" where
  "log_and_print message st =
     (case log_file st of
        Log_Directory \<Rightarrow> Inl (IsADirectoryError, st)
      | Log_File ls \<Rightarrow>
          Inr (st\<lparr>log_file := Log_File (ls @ [message]), console := console st @ [message]\<rparr>))"

fun for_each :: "('a \<Rightarrow> state \<Rightarrow> result) \<Rightarrow> 'a list \<Rightarrow> state \<Rightarrow> result" where
  "for_each body [] st = Inr st"
| "for_each body (x # xs) st =
     (case body x st of Inl e \<Rightarrow> Inl e | Inr st' \<Rightarrow> for_each body xs st')"

section \<open>The tree walk\<close>

text \<open>
  \<^verbatim>\<open>os.walk(dirpath)\<close> lists \<^verbatim>\<open>dirpath\<close> when it reaches it and sorts the entries into directories
  and the rest; a \<^verbatim>\<open>dirpath\<close> that cannot be listed yields nothing. \<^verbatim>\<open>relpath\<close> is only ever
  applied to a walked directory and the root of its walk.
\<close>

definition walk_scan :: "filesystem \<Rightarrow> path \<Rightarrow> (string list \<times> string list) option" where
  "walk_scan fs dirpath =
     (case stat fs dirpath of
        Inr (Dir m) \<Rightarrow>
          Some (map fst (filter (\<lambda>(n, e). is_dir (Some e)) (scandir fs (norm dirpath))),
                map fst (filter (\<lambda>(n, e). \<not> is_dir (Some e)) (scandir fs (norm dirpath))))
      | _ \<Rightarrow> None)"

definition relpath :: "path \<Rightarrow> path \<Rightarrow> path" where
  "relpath p start = (if drop (length start) p = [] then [''.''] else drop (length start) p)"

section \<open>The Reconciler: copying from source to replica\<close>

text \<open>One round of the loop over \<^verbatim>\<open>source_files\<close> (lines 70 to 90).\<close>

definition copy_file :: "path \<Rightarrow> path \<Rightarrow> string \<Rightarrow> state \<Rightarrow> result" where
  "copy_file source_root folder_replica_path source_file st =
     (let source_file_path = source_root @ [source_file];
          replica_file_path = folder_replica_path @ [source_file]
      in if \<not> os_path_exists (disk st) replica_file_path then
           (case shutil_copy2 (clock st) source_file_path replica_file_path (disk st) of
              Inl e \<Rightarrow> Inl (e, st)
            | Inr d \<Rightarrow>
                (case stat d source_file_path of
                   Inl e \<Rightarrow> Inl (e, st\<lparr>disk := d\<rparr>)
                 | Inr s \<Rightarrow>
                     log_and_print (File_Created source_file_path (st_ctime s)) (st\<lparr>disk := d\<rparr>)))
         else
           (case stat (disk st) source_file_path of
              Inl e \<Rightarrow> Inl (e, st)
            | Inr s \<Rightarrow>
                (case stat (disk st) replica_file_path of
                   Inl e \<Rightarrow> Inl (e, st)
                 | Inr r \<Rightarrow>
                     if st_mtime s \<noteq> st_mtime r then
                       (case shutil_copy2 (clock st) source_file_path replica_file_path (disk st) of
                          Inl e \<Rightarrow> Inl (e, st)
                        | Inr d \<Rightarrow>
                            (case stat d source_file_path of
                               Inl e \<Rightarrow> Inl (e, st\<lparr>disk := d\<rparr>)
                             | Inr s' \<Rightarrow>
                                 log_and_print (File_Modified source_file_path (st_mtime s'))
                                   (st\<lparr>disk := d\<rparr>)))
                     else Inr st)))"

text \<open>One round of the loop over \<^verbatim>\<open>source_dirs\<close> (lines 93 to 101).\<close>

definition copy_dir :: "path \<Rightarrow> path \<Rightarrow> string \<Rightarrow> state \<Rightarrow> result" where
  "copy_dir source_root folder_replica_path source_dir st =
     (let folder_source_path = source_root @ [source_dir];
          folder_replica_path_inner = folder_replica_path @ [source_dir]
      in if os_path_exists (disk st) folder_source_path
            \<and> \<not> os_path_exists (disk st) folder_replica_path_inner then
           (case os_makedirs (clock st) folder_replica_path_inner (disk st) of
              Inl (e, d) \<Rightarrow> Inl (e, st\<lparr>disk := d\<rparr>)
            | Inr d \<Rightarrow>
                (case stat d folder_replica_path_inner of
                   Inl e \<Rightarrow> Inl (e, st\<lparr>disk := d\<rparr>)
                 | Inr r \<Rightarrow>
                     log_and_print (Folder_Created folder_replica_path_inner (st_ctime r))
                       (st\<lparr>disk := d\<rparr>)))
         else Inr st)"

text \<open>The body of the loop over the walk (lines 62 to 101) for one walked directory.\<close>

definition copy_body ::
  "path \<Rightarrow> path \<Rightarrow> path \<Rightarrow> string list \<Rightarrow> string list \<Rightarrow> state \<Rightarrow> result" where
  "copy_body folder_source folder_replica source_root source_dirs source_files st =
     (let folder_source_path = relpath source_root folder_source;
          folder_replica_path = folder_replica @ folder_source_path
      in case (if \<not> os_path_exists (disk st) folder_replica_path then
                 (case os_makedirs (clock st) folder_replica_path (disk st) of
                    Inl (e, d) \<Rightarrow> Inl (e, st\<lparr>disk := d\<rparr>)
                  | Inr d \<Rightarrow> Inr (st\<lparr>disk := d\<rparr>))
               else Inr st) of
           Inl e \<Rightarrow> Inl e
         | Inr st1 \<Rightarrow>
             (case for_each (copy_file source_root folder_replica_path) source_files st1 of
                Inl e \<Rightarrow> Inl e
              | Inr st2 \<Rightarrow> for_each (copy_dir source_root folder_replica_path) source_dirs st2))"

text \<open>
  The walk is top-down and lazy: a directory is listed when the walk reaches it, after the
  bodies of everything before it have run. The fuel bounds the depth of the walk; None is
  a walk that is still descending when the fuel is gone.
\<close>

fun copy_walk :: "nat \<Rightarrow> path \<Rightarrow> path \<Rightarrow> path \<Rightarrow> state \<Rightarrow> result option"
  and copy_walk_dirs :: "nat \<Rightarrow> path \<Rightarrow> path \<Rightarrow> path \<Rightarrow> string list \<Rightarrow> state \<Rightarrow> result option"
where
  "copy_walk 0 folder_source folder_replica dirpath st = None"
| "copy_walk (Suc n) folder_source folder_replica dirpath st =
     (case walk_scan (disk st) dirpath of
        None \<Rightarrow> Some (Inr st)
      | Some (dirs, files) \<Rightarrow>
          (case copy_body folder_source folder_replica dirpath dirs files st of
             Inl e \<Rightarrow> Some (Inl e)
           | Inr st' \<Rightarrow> copy_walk_dirs n folder_source folder_replica dirpath dirs st'))"
| "copy_walk_dirs n folder_source folder_replica dirpath [] st = Some (Inr st)"
| "copy_walk_dirs n folder_source folder_replica dirpath (d # ds) st =
     (case copy_walk n folder_source folder_replica (dirpath @ [d]) st of
        None \<Rightarrow> None
      | Some (Inl e) \<Rightarrow> Some (Inl e)
      | Some (Inr st') \<Rightarrow> copy_walk_dirs n folder_source folder_replica dirpath ds st')"

definition copy_files_and_dirs :: "nat \<Rightarrow> path \<Rightarrow> path \<Rightarrow> state \<Rightarrow> result option" where
  "copy_files_and_dirs n folder_source folder_replica st =
     copy_walk n folder_source folder_replica folder_source st"

section \<open>The Pruner: removing from the replica\<close>

text \<open>One round of the loop over \<^verbatim>\<open>replica_files\<close> (lines 119 to 126).\<close>

definition remove_file :: "path \<Rightarrow> path \<Rightarrow> string \<Rightarrow> state \<Rightarrow> result" where
  "remove_file replica_root folder_source_path replica_file st =
     (let replica_file_path = replica_root @ [replica_file];
          source_file_path = folder_source_path @ [replica_file]
      in if \<not> os_path_exists (disk st) source_file_path then
           (case os_remove (clock st) replica_file_path (disk st) of
              Inl e \<Rightarrow> Inl (e, st)
            | Inr d \<Rightarrow> log_and_print (File_Deleted source_file_path (clock st)) (st\<lparr>disk := d\<rparr>))
         else Inr st)"

text \<open>One round of the loop over \<^verbatim>\<open>replica_dirs\<close> (lines 129 to 135); \<^verbatim>\<open>os.listdir\<close> is
  evaluated first and can raise.\<close>

definition remove_dir :: "path \<Rightarrow> path \<Rightarrow> string \<Rightarrow> state \<Rightarrow> result" where
  "remove_dir replica_root folder_source_path replica_dir st =
     (let folder_replica_path = replica_root @ [replica_dir];
          folder_source_path_inner = folder_source_path @ [replica_dir]
      in case os_listdir (disk st) folder_replica_path of
           Inl e \<Rightarrow> Inl (e, st)
         | Inr names \<Rightarrow>
             if names = [] \<and> \<not> os_path_exists (disk st) folder_source_path_inner then
               (case os_rmdir (clock st) folder_replica_path (disk st) of
                  Inl e \<Rightarrow> Inl (e, st)
                | Inr d \<Rightarrow>
                    log_and_print (Folder_Deleted folder_replica_path (clock st)) (st\<lparr>disk := d\<rparr>))
             else Inr st)"

definition remove_body ::
  "path \<Rightarrow> path \<Rightarrow> path \<Rightarrow> string list \<Rightarrow> string list \<Rightarrow> state \<Rightarrow> result" where
  "remove_body folder_source folder_replica replica_root replica_dirs replica_files st =
     (let folder_replica_path = relpath replica_root folder_replica;
          folder_source_path = folder_source @ folder_replica_path
      in case for_each (remove_file replica_root folder_source_path) replica_files st of
           Inl e \<Rightarrow> Inl e
         | Inr st1 \<Rightarrow> for_each (remove_dir replica_root folder_source_path) replica_dirs st1)"

text \<open>
  The walk is bottom-up (\<^verbatim>\<open>topdown=False\<close>): a directory is listed when the walk reaches
  it, its subdirectories are walked, and only then does the body run, on the lists taken
  before the descent.
\<close>

fun remove_walk :: "nat \<Rightarrow> path \<Rightarrow> path \<Rightarrow> path \<Rightarrow> state \<Rightarrow> result option"
  and remove_walk_dirs :: "nat \<Rightarrow> path \<Rightarrow> path \<Rightarrow> path \<Rightarrow> string list \<Rightarrow> state \<Rightarrow> result option"
where
  "remove_walk 0 folder_source folder_replica dirpath st = None"
| "remove_walk (Suc n) folder_source folder_replica dirpath st =
     (case walk_scan (disk st) dirpath of
        None \<Rightarrow> Some (Inr st)
      | Some (dirs, files) \<Rightarrow>
          (case remove_walk_dirs n folder_source folder_replica dirpath dirs st of
             None \<Rightarrow> None
           | Some (Inl e) \<Rightarrow> Some (Inl e)
           | Some (Inr st') \<Rightarrow>
               Some (remove_body folder_source folder_replica dirpath dirs files st')))"
| "remove_walk_dirs n folder_source folder_replica dirpath [] st = Some (Inr st)"
| "remove_walk_dirs n folder_source folder_replica dirpath (d # ds) st =
     (case remove_walk n folder_source folder_replica (dirpath @ [d]) st of
        None \<Rightarrow> None
      | Some (Inl e) \<Rightarrow> Some (Inl e)
      | Some (Inr st') \<Rightarrow> remove_walk_dirs n folder_source folder_replica dirpath ds st')"

definition remove_files_and_dirs :: "nat \<Rightarrow> path \<Rightarrow> path \<Rightarrow> state \<Rightarrow> result option" where
  "remove_files_and_dirs n folder_source folder_replica st =
     remove_walk n folder_source folder_replica folder_replica st"

text \<open>One pass of the loop in \<^verbatim>\<open>sync_folders\<close> (lines 155 and 156).\<close>

definition sync_pass :: "nat \<Rightarrow> path \<Rightarrow> path \<Rightarrow> state \<Rightarrow> result option" where
  "sync_pass n folder_source folder_replica st =
     (case copy_files_and_dirs n folder_source folder_replica st of
        None \<Rightarrow> None
      | Some (Inl e) \<Rightarrow> Some (Inl e)
      | Some (Inr st') \<Rightarrow> remove_files_and_dirs n folder_source folder_replica st')"

section \<open>The command line and the driver\<close>

text \<open>
  A string is the list of its characters, with codes below 256. The built-in \<^verbatim>\<open>int\<close> is a
  parameter of the driver: the function that gives the integer a string denotes, None
  where \<^verbatim>\<open>int\<close> raises ValueError. What it accepts depends on the interpreter (the limit
  on the number of digits came with CPython 3.11 and can be configured), and the
  properties of the driver are stated for every such function.

  \<^verbatim>\<open>py_int\<close> is that function as CPython 3.11 computes it with its default settings. A
  character from code 127 on is replaced first, a blank one (codes 133 and 160) by a space
  and any other by a character that no number contains. Then blanks (tab, line feed,
  vertical tab, form feed, carriage return, space) around the number are skipped, one sign
  may lead, and the rest is decimal digits, where single underscores may stand between
  digits, with no more than 4300 digits in all.
\<close>

definition is_space :: "char \<Rightarrow> bool" where
  "is_space c = (let k = (of_char c :: nat) in (9 \<le> k \<and> k \<le> 13) \<or> k = 32)"

definition is_digit :: "char \<Rightarrow> bool" where
  "is_digit c = (let k = (of_char c :: nat) in 48 \<le> k \<and> k \<le> 57)"

definition digit_val :: "char \<Rightarrow> nat" where
  "digit_val c = (of_char c :: nat) - 48"

definition to_ascii :: "char \<Rightarrow> char" where
  "to_ascii c =
     (let k = (of_char c :: nat)
      in if k < 127 then c else if k = 133 \<or> k = 160 then CHR '' '' else CHR ''?'')"

definition strip :: "string \<Rightarrow> string" where
  "strip s = rev (dropWhile is_space (rev (dropWhile is_space s)))"

fun py_digits :: "nat \<Rightarrow> string \<Rightarrow> nat option" where
  "py_digits acc [] = Some acc"
| "py_digits acc [c] = (if is_digit c then Some (10 * acc + digit_val c) else None)"
| "py_digits acc (c # d # cs) =
     (if is_digit c then py_digits (10 * acc + digit_val c) (d # cs)
      else if c = CHR ''_'' \<and> is_digit d then py_digits (10 * acc + digit_val d) cs
      else None)"

definition py_number :: "string \<Rightarrow> nat option" where
  "py_number s =
     (case s of
        [] \<Rightarrow> None
      | c # cs \<Rightarrow>
          if is_digit c \<and> length (filter is_digit s) \<le> 4300 then py_digits 0 s else None)"

definition py_int :: "string \<Rightarrow> int option" where
  "py_int s =
     (case strip (map to_ascii s) of
        [] \<Rightarrow> None
      | c # cs \<Rightarrow>
          if c = CHR ''-'' then map_option (\<lambda>k. - int k) (py_number cs)
          else if c = CHR ''+'' then map_option int (py_number cs)
          else map_option int (py_number (c # cs)))"

text \<open>
  \<^verbatim>\<open>getting_args\<close> reads \<^verbatim>\<open>sys.argv[1]\<close> to \<^verbatim>\<open>sys.argv[4]\<close> in order; an IndexError or a
  ValueError is caught, a message is printed and \<^verbatim>\<open>sys.exit()\<close> is called without an
  argument, which ends the process with status 0.
\<close>

datatype exit = Exit (printed: string) (status: nat)

definition four_arguments_message :: string where
  "four_arguments_message =
     ''You must enter four arguments. For instance '' @ [CHR 0x27]
       @ ''python synchronizer.py source replica 10 logfile'' @ [CHR 0x27]"

definition integer_message :: string where
  "integer_message = ''The third argument must be an integer number''"

definition getting_args ::
  "(string \<Rightarrow> int option) \<Rightarrow> string list \<Rightarrow> exit + string \<times> string \<times> int \<times> string" where
  "getting_args int_str argv =
     (if length argv \<le> 3 then Inl (Exit four_arguments_message 0)
      else (case int_str (argv ! 3) of
              None \<Rightarrow> Inl (Exit integer_message 0)
            | Some sync_interval \<Rightarrow>
                if length argv \<le> 4 then Inl (Exit four_arguments_message 0)
                else Inr (argv ! 1, argv ! 2, sync_interval, argv ! 4 @ ''.log'')))"

text \<open>
  A folder argument is cut at its slashes. A slash at the end of the path or after
  another slash leaves an empty component, which names the directory reached so far and
  is kept as \<^verbatim>\<open>"."\<close>. The program is taken to be started in the root directory, so that a
  slash at the start leaves such a component as well. The empty string is the empty path.
\<close>

fun cut :: "string \<Rightarrow> string \<Rightarrow> string list" where
  "cut acc [] = [rev acc]"
| "cut acc (c # cs) = (if c = CHR ''/'' then rev acc # cut [] cs else cut (c # acc) cs)"

definition split_path :: "string \<Rightarrow> path" where
  "split_path s = (if s = [] then [] else map (\<lambda>n. if n = [] then ''.'' else n) (cut [] s))"

text \<open>
  \<^verbatim>\<open>time.sleep\<close> with an integer, as CPython 3.11 does it: the seconds are converted to
  nanoseconds in 64 bits, which fails with OverflowError, and a negative length is then
  refused with ValueError.
\<close>

definition time_sleep :: "int \<Rightarrow> error option" where
  "time_sleep secs =
     (if secs < - 9223372036 \<or> 9223372036 < secs then Some OverflowError
      else if secs < 0 then Some ValueError
      else None)"

text \<open>
  \<^verbatim>\<open>sync_folders\<close>: the arguments, the source folder made if it is missing, then the loop
  forever. What the loop has done after a number of rounds is observed: it is still
  running, or a round has raised.
\<close>

datatype outcome = Exited exit state | Raised error state | Running state

fun sync_loop :: "nat \<Rightarrow> nat \<Rightarrow> path \<Rightarrow> path \<Rightarrow> int \<Rightarrow> state \<Rightarrow> outcome option" where
  "sync_loop 0 n folder_source folder_replica sync_interval st = Some (Running st)"
| "sync_loop (Suc i) n folder_source folder_replica sync_interval st =
     (case sync_pass n folder_source folder_replica st of
        None \<Rightarrow> None
      | Some (Inl (e, st')) \<Rightarrow> Some (Raised e st')
      | Some (Inr st') \<Rightarrow>
          (case time_sleep sync_interval of
             Some e \<Rightarrow> Some (Raised e st')
           | None \<Rightarrow> sync_loop i n folder_source folder_replica sync_interval st'))"

text \<open>What \<^verbatim>\<open>sync_folders\<close> does with the values \<^verbatim>\<open>getting_args\<close> has returned (lines 147
  to 157).\<close>

definition sync_folders_body :: "nat \<Rightarrow> nat \<Rightarrow> string \<Rightarrow> string \<Rightarrow> int \<Rightarrow> state \<Rightarrow> outcome option" where
  "sync_folders_body i n source replica sync_interval st =
     (let folder_source = split_path source; folder_replica = split_path replica
      in if \<not> os_path_exists (disk st) folder_source then
           (case os_makedirs (clock st) folder_source (disk st) of
              Inl (e, d) \<Rightarrow> Some (Raised e (st\<lparr>disk := d\<rparr>))
            | Inr d \<Rightarrow>
                sync_loop i n folder_source folder_replica sync_interval (st\<lparr>disk := d\<rparr>))
         else sync_loop i n folder_source folder_replica sync_interval st)"

definition sync_folders ::
  "(string \<Rightarrow> int option) \<Rightarrow> nat \<Rightarrow> nat \<Rightarrow> string list \<Rightarrow> state \<Rightarrow> outcome option" where
  "sync_folders int_str i n argv st =
     (case getting_args int_str argv of
        Inl ex \<Rightarrow> Some (Exited ex st)
      | Inr (source, replica, sync_interval, log_name) \<Rightarrow>
          sync_folders_body i n source replica sync_interval st)"

section \<open>Well-formed filesystems\<close>

text \<open>
  A proper name is what a directory entry can be called: not empty, not \<^verbatim>\<open>"."\<close> or
  \<^verbatim>\<open>".."\<close>, and without a slash. A plain path is made of proper names. A filesystem is
  well formed when no location is listed twice, the starting directory exists, every
  location is plain, and every entry lies in a directory.
\<close>

definition proper_name :: "string \<Rightarrow> bool" where
  "proper_name n = (n \<noteq> [] \<and> n \<noteq> ''.'' \<and> n \<noteq> ''..'' \<and> CHR ''/'' \<notin> set n)"

definition plain :: "path \<Rightarrow> bool" where
  "plain p = list_all proper_name p"

definition wf_fs :: "filesystem \<Rightarrow> bool" where
  "wf_fs fs = (distinct (map fst fs) \<and> is_dir (map_of fs [])
     \<and> (\<forall>(p, e) \<in> set fs. plain p \<and> (p \<noteq> [] \<longrightarrow> is_dir (map_of fs (butlast p)))))"

definition wf_map :: "(path \<Rightarrow> entry option) \<Rightarrow> bool" where
  "wf_map F = (is_dir (F []) \<and> (\<forall>p e. F p = Some e \<longrightarrow> plain p \<and> (p \<noteq> [] \<longrightarrow> is_dir (F (butlast p)))))"

section \<open>Notions used to state the properties\<close>

text \<open>The state a call leaves behind, whether it returned or raised.\<close>

definition final :: "result \<Rightarrow> state" where
  "final r = (case r of Inl (e, st) \<Rightarrow> st | Inr st \<Rightarrow> st)"

text \<open>Nothing has changed at the paths that lie neither on or below a root nor above it.\<close>

definition unchanged_outside :: "path \<Rightarrow> state \<Rightarrow> state \<Rightarrow> bool" where
  "unchanged_outside R st st' =
     (\<forall>x. \<not> prefix x R \<and> \<not> prefix R x \<longrightarrow> map_of (disk st') x = map_of (disk st) x)"

text \<open>The state after one entry of the replica has been removed and the removal reported.\<close>

definition removed :: "path \<Rightarrow> event \<Rightarrow> state \<Rightarrow> state" where
  "removed replica_path message st =
     st\<lparr>disk := touch (clock st) (butlast replica_path) (AList.delete replica_path (disk st)),
        log_file := (case log_file st of
                       Log_File ls \<Rightarrow> Log_File (ls @ [message])
                     | Log_Directory \<Rightarrow> Log_Directory),
        console := console st @ [message]\<rparr>"

section \<open>Two runs that differ in the log\<close>

text \<open>The path an event names, and a result with another log in its state.\<close>

fun event_path :: "event \<Rightarrow> path" where
  "event_path (File_Created p t) = p"
| "event_path (File_Modified p t) = p"
| "event_path (Folder_Created p t) = p"
| "event_path (File_Deleted p t) = p"
| "event_path (Folder_Deleted p t) = p"


text \<open>
  The change that an event reports is there in a filesystem. A file event names the
  source file: its replica counterpart, or the file of that name inside the counterpart
  when that is a directory, has the source's content and modification time, or (for a
  deletion) the counterpart is gone. A folder event names the replica folder: it is a
  directory, or it is gone.
\<close>

definition counterpart :: "path \<Rightarrow> path \<Rightarrow> path \<Rightarrow> path" where
  "counterpart src rep p = rep @ drop (length src) p"

definition copy_of :: "entry option \<Rightarrow> entry option \<Rightarrow> bool" where
  "copy_of a b =
     (case a of
        Some (File c m t) \<Rightarrow> (case b of Some (File c' m' t') \<Rightarrow> c' = c \<and> m' = m | _ \<Rightarrow> False)
      | _ \<Rightarrow> False)"





text \<open>A call only adds lines to a log file.\<close>

definition grows :: "state \<Rightarrow> result \<Rightarrow> bool" where
  "grows s r =
     (\<forall>l. log_file s = Log_File l \<longrightarrow> (\<exists>more. log_file (final r) = Log_File (l @ more)))"

section \<open>Example states\<close>

text \<open>A run that starts on a given filesystem with an empty log, at clock reading 9.\<close>

definition start :: "filesystem \<Rightarrow> state" where
  "start fs = \<lparr>disk = fs, log_file = Log_File [], console = [], clock = 9\<rparr>"

text \<open>A source \<^verbatim>\<open>s\<close> holding \<^verbatim>\<open>a/b.txt\<close>, and no replica yet.\<close>

definition fs_fresh :: filesystem where
  "fs_fresh =
     [([], Dir 0), ([''s''], Dir 1), ([''s'', ''a''], Dir 2),
      ([''s'', ''a'', ''b.txt''], File ''x'' 3 4)]"


text \<open>An empty source \<^verbatim>\<open>s\<close>, and a replica \<^verbatim>\<open>r\<close> that still holds \<^verbatim>\<open>dir/x.txt\<close>.\<close>

definition fs_cascade :: filesystem where
  "fs_cascade =
     [([], Dir 0), ([''s''], Dir 1), ([''r''], Dir 1), ([''r'', ''dir''], Dir 1),
      ([''r'', ''dir'', ''x.txt''], File ''x'' 5 5)]"

text \<open>A source \<^verbatim>\<open>s\<close> and a replica \<^verbatim>\<open>r\<close> that hold the same file \<^verbatim>\<open>f\<close>, with one
  modification time.\<close>

definition fs_mirrored :: filesystem where
  "fs_mirrored =
     [([], Dir 0), ([''s''], Dir 1), ([''s'', ''f''], File ''x'' 3 4), ([''r''], Dir 1),
      ([''r'', ''f''], File ''x'' 3 8)]"


section \<open>Paths, lookups and listings\<close>

lemma is_dir_iff: "is_dir x \<longleftrightarrow> (\<exists>m. x = Some (Dir m))"
  by (cases x rule: is_dir.cases) auto

lemma is_file_iff: "is_file x \<longleftrightarrow> (\<exists>c m t. x = Some (File c m t))"
  by (cases x rule: is_file.cases) auto

lemma not_dir_file: "x \<noteq> None \<Longrightarrow> \<not> is_dir x \<longleftrightarrow> is_file x"
  by (cases x rule: is_dir.cases) auto

lemma norm_append [simp]: "norm (p @ q) = norm p @ norm q"
  by (simp add: norm_def)


lemma plain_nodot: "plain p \<Longrightarrow> ''.'' \<notin> set p"
  by (auto simp: plain_def proper_name_def list_all_iff)


lemma plain_append [simp]: "plain (p @ q) \<longleftrightarrow> plain p \<and> plain q"
  by (simp add: plain_def)

lemma plain_simps [simp]: "plain []" "plain (n # p) \<longleftrightarrow> proper_name n \<and> plain p"
  by (simp_all add: plain_def)

lemma plain_butlast: "plain p \<Longrightarrow> plain (butlast p)"
  by (auto simp: plain_def list_all_iff dest: in_set_butlastD)

lemma norm_dot [simp]: "norm [''.''] = []" "norm [] = []"
  by (simp_all add: norm_def)

lemma norm_single: "n \<noteq> ''.'' \<Longrightarrow> norm [n] = [n]"
  by (simp add: norm_def)

lemma wf_distinct: "wf_fs fs \<Longrightarrow> distinct (map fst fs)"
  by (simp add: wf_fs_def)

lemma wf_root: "wf_fs fs \<Longrightarrow> is_dir (map_of fs [])"
  by (simp add: wf_fs_def)

lemma wf_parent: "wf_fs fs \<Longrightarrow> map_of fs p = Some e \<Longrightarrow> p \<noteq> [] \<Longrightarrow> is_dir (map_of fs (butlast p))"
  by (auto simp: wf_fs_def dest!: map_of_SomeD)

lemma wf_plain: "wf_fs fs \<Longrightarrow> map_of fs p = Some e \<Longrightarrow> plain p"
  by (auto simp: wf_fs_def dest!: map_of_SomeD)

lemma wf_nodot: "wf_fs fs \<Longrightarrow> map_of fs p = Some e \<Longrightarrow> ''.'' \<notin> set p"
  by (auto dest: wf_plain plain_nodot)

lemma wf_snoc: "wf_fs fs \<Longrightarrow> map_of fs (p @ [n]) = Some e \<Longrightarrow> is_dir (map_of fs p) \<and> n \<noteq> ''.''"
  using wf_parent [of fs "p @ [n]" e] wf_nodot [of fs "p @ [n]" e] by auto

lemma wf_name: "wf_fs fs \<Longrightarrow> map_of fs (p @ [n]) = Some e \<Longrightarrow> proper_name n"
  using wf_plain [of fs "p @ [n]" e] by simp

lemma wf_ancestor: "wf_fs fs \<Longrightarrow> map_of fs (p @ q) \<noteq> None \<Longrightarrow> q \<noteq> [] \<Longrightarrow> is_dir (map_of fs p)"
proof (induction q rule: rev_induct)
  case Nil then show ?case by simp
next
  case (snoc n q)
  from snoc.prems obtain e where e: "map_of fs ((p @ q) @ [n]) = Some e" by auto
  from wf_snoc [OF snoc.prems(1) e] have d: "is_dir (map_of fs (p @ q))" by simp
  show ?case
  proof (cases "q = []")
    case True with d show ?thesis by simp
  next
    case False
    with snoc.IH [OF snoc.prems(1)] d show ?thesis by (auto simp: is_dir_iff)
  qed
qed

lemma wf_below_none: "wf_fs fs \<Longrightarrow> \<not> is_dir (map_of fs p) \<Longrightarrow> q \<noteq> [] \<Longrightarrow> map_of fs (p @ q) = None"
  using wf_ancestor by blast

lemma wfI:
  assumes "distinct (map fst fs)" "is_dir (map_of fs [])"
    "\<And>p e. map_of fs p = Some e \<Longrightarrow> plain p \<and> (p \<noteq> [] \<longrightarrow> is_dir (map_of fs (butlast p)))"
  shows "wf_fs fs"
  unfolding wf_fs_def using assms by (auto dest!: map_of_is_SomeI [rotated])


lemma exists_iff:
  "os_path_exists fs p \<longleftrightarrow>
     p \<noteq> [] \<and> (\<exists>e. map_of fs (norm p) = Some e \<and> (ends_dot p \<longrightarrow> is_dir (Some e)))"
  by (auto simp: os_path_exists_def stat_def split: option.splits)

lemma ends_dot_snoc [simp]: "ends_dot (p @ [n]) \<longleftrightarrow> n = ''.''"
  by (simp add: ends_dot_def)

lemma scandir_set:
  assumes "distinct (map fst fs)"
  shows "(n, e) \<in> set (scandir fs q) \<longleftrightarrow> map_of fs (q @ [n]) = Some e"
proof
  assume "(n, e) \<in> set (scandir fs q)"
  then obtain r where r: "(r, e) \<in> set fs" "r \<noteq> []" "butlast r = q" "last r = n"
    by (auto simp: scandir_def)
  then have "r = q @ [n]" using append_butlast_last_id by metis
  with r assms show "map_of fs (q @ [n]) = Some e" by simp
next
  assume "map_of fs (q @ [n]) = Some e"
  then have "(q @ [n], e) \<in> set fs" by (rule map_of_SomeD)
  then show "(n, e) \<in> set (scandir fs q)" by (force simp: scandir_def)
qed

lemma scandir_distinct:
  assumes "distinct (map fst fs)"
  shows "distinct (map fst (scandir fs q))"
proof -
  have eq: "map fst (scandir fs q) = map last (filter (\<lambda>r. r \<noteq> [] \<and> butlast r = q) (map fst fs))"
    by (induction fs) (auto simp: scandir_def)
  have inj: "inj_on last {r. r \<noteq> [] \<and> butlast r = q}"
    by (rule inj_onI) (metis (mono_tags, lifting) append_butlast_last_id mem_Collect_eq)
  show ?thesis unfolding eq
    by (rule distinct_map [THEN iffD2]) (use assms inj in \<open>auto intro: inj_on_subset distinct_filter\<close>)
qed

section \<open>What the primitives change\<close>

lemma wf_fs_map: "wf_fs fs \<longleftrightarrow> distinct (map fst fs) \<and> wf_map (map_of fs)"
  unfolding wf_map_def
  by (auto simp: wf_distinct wf_root wf_plain wf_parent intro!: wfI)

lemma map_of_touch:
  "map_of (touch now q fs) = (if is_dir (map_of fs q) then (map_of fs)(q \<mapsto> Dir now) else map_of fs)"
  by (simp add: touch_def update_conv')

lemma distinct_touch: "distinct (map fst fs) \<Longrightarrow> distinct (map fst (touch now q fs))"
  by (simp add: touch_def distinct_update)

lemma wf_map_stamp: "wf_map F \<Longrightarrow> is_dir (F q) \<Longrightarrow> wf_map (F(q \<mapsto> Dir now))"
  unfolding wf_map_def by (auto simp: is_dir_iff)

lemma wf_map_new_dir:
  "wf_map F \<Longrightarrow> F q = None \<Longrightarrow> is_dir (F (butlast q)) \<Longrightarrow> plain q \<Longrightarrow> wf_map (F(q \<mapsto> Dir now))"
  unfolding wf_map_def by (auto simp: is_dir_iff)

lemma wf_map_file:
  "wf_map F \<Longrightarrow> \<not> is_dir (F q) \<Longrightarrow> is_dir (F (butlast q)) \<Longrightarrow> plain q \<Longrightarrow> q \<noteq> []
    \<Longrightarrow> wf_map (F(q \<mapsto> File c m t))"
  unfolding wf_map_def by (auto simp: is_dir_iff)

lemma wf_map_delete:
  "wf_map F \<Longrightarrow> q \<noteq> [] \<Longrightarrow> \<forall>n. F (q @ [n]) = None \<Longrightarrow> wf_map (F(q := None))"
  unfolding wf_map_def
  apply (auto simp: is_dir_iff)
  by (metis append_butlast_last_id option.distinct(1))

lemma wf_touch: "wf_fs fs \<Longrightarrow> wf_fs (touch now q fs)"
  by (auto simp: wf_fs_map distinct_touch map_of_touch wf_map_stamp)

lemma os_mkdir_Inr:
  "os_mkdir now p fs = Inr fs' \<longleftrightarrow>
     p \<noteq> [] \<and> map_of fs (norm p) = None \<and> \<not> ends_dot p \<and> is_dir (map_of fs (butlast (norm p)))
     \<and> fs' = touch now (butlast (norm p)) (AList.update (norm p) (Dir now) fs)"
  by (auto simp: os_mkdir_def Let_def is_dir_iff split: option.splits entry.splits)


lemma os_mkdir_wf:
  assumes "os_mkdir now p fs = Inr fs'" "wf_fs fs" "plain (norm p)"
  shows "wf_fs fs'"
proof -
  from assms(1) have c: "map_of fs (norm p) = None" "is_dir (map_of fs (butlast (norm p)))"
    and fs': "fs' = touch now (butlast (norm p)) (AList.update (norm p) (Dir now) fs)"
    by (auto simp: os_mkdir_Inr)
  have "wf_fs (AList.update (norm p) (Dir now) fs)"
    using assms(2,3) c by (auto simp: wf_fs_map distinct_update update_conv' wf_map_new_dir)
  then show ?thesis unfolding fs' by (rule wf_touch)
qed

lemma norm_nodot [simp]: "''.'' \<notin> set (norm p)"
  by (simp add: norm_def)

lemma os_remove_Inr:
  "os_remove now p fs = Inr fs' \<longleftrightarrow>
     p \<noteq> [] \<and> is_file (map_of fs (norm p)) \<and> \<not> ends_dot p
     \<and> fs' = touch now (butlast (norm p)) (AList.delete (norm p) fs)"
  by (auto simp: os_remove_def stat_def is_file_iff split: option.splits entry.splits sum.splits if_splits)

lemma os_rmdir_Inr:
  "os_rmdir now p fs = Inr fs' \<longleftrightarrow>
     p \<noteq> [] \<and> is_dir (map_of fs (norm p)) \<and> scandir fs (norm p) = []
     \<and> fs' = touch now (butlast (norm p)) (AList.delete (norm p) fs)"
  by (auto simp: os_rmdir_def stat_def is_dir_iff split: option.splits entry.splits sum.splits if_splits)

lemma delete_at:
  assumes "fs' = touch now (butlast q) (AList.delete q fs)"
  shows "map_of fs' x = (if x = q then None
       else if x = butlast q \<and> is_dir (map_of fs x) then Some (Dir now) else map_of fs x)"
  using assms by (auto simp: map_of_touch delete_conv' is_dir_iff)

lemma scandir_empty:
  assumes "distinct (map fst fs)"
  shows "scandir fs q = [] \<longleftrightarrow> (\<forall>n. map_of fs (q @ [n]) = None)"
proof -
  have "scandir fs q = [] \<longleftrightarrow> (\<forall>n e. (n, e) \<notin> set (scandir fs q))"
    by (cases "scandir fs q"; force)
  also have "\<dots> \<longleftrightarrow> (\<forall>n. map_of fs (q @ [n]) = None)"
    by (simp add: scandir_set [OF assms])
  finally show ?thesis .
qed

lemma delete_wf:
  assumes "wf_fs fs" "q \<noteq> []" "\<forall>n. map_of fs (q @ [n]) = None"
  shows "wf_fs (touch now (butlast q) (AList.delete q fs))"
proof -
  have "wf_fs (AList.delete q fs)"
    using assms by (auto simp: wf_fs_map distinct_delete delete_conv' wf_map_delete)
  then show ?thesis by (rule wf_touch)
qed

lemma os_remove_wf:
  assumes "os_remove now p fs = Inr fs'" "wf_fs fs"
  shows "wf_fs fs'"
proof -
  from assms(1) have f: "is_file (map_of fs (norm p))"
    and fs': "fs' = touch now (butlast (norm p)) (AList.delete (norm p) fs)"
    by (auto simp: os_remove_Inr)
  from f wf_root [OF assms(2)] have ne: "norm p \<noteq> []" by (auto simp: is_file_iff)
  from f have "\<not> is_dir (map_of fs (norm p))" by (auto simp: is_file_iff)
  then have "\<forall>n. map_of fs (norm p @ [n]) = None"
    using wf_below_none [OF assms(2)] by simp
  with assms(2) ne show ?thesis unfolding fs' by (intro delete_wf)
qed

lemma os_rmdir_wf:
  assumes "os_rmdir now p fs = Inr fs'" "wf_fs fs" "norm p \<noteq> []"
  shows "wf_fs fs'"
proof -
  from assms(1) have f: "scandir fs (norm p) = []"
    and fs': "fs' = touch now (butlast (norm p)) (AList.delete (norm p) fs)"
    by (auto simp: os_rmdir_Inr)
  from f have "\<forall>n. map_of fs (norm p @ [n]) = None"
    using scandir_empty [OF wf_distinct [OF assms(2)]] by simp
  with assms(2,3) show ?thesis unfolding fs' by (intro delete_wf)
qed

lemma isdir_iff: "os_path_isdir fs p \<longleftrightarrow> p \<noteq> [] \<and> is_dir (map_of fs (norm p))"
  by (auto simp: os_path_isdir_def stat_def is_dir_iff split: option.splits sum.splits)

lemma copy2_file:
  assumes "map_of fs (norm src) = Some (File c m t)" "\<not> ends_dot src"
    "\<not> is_dir (map_of fs (norm dst))" "\<not> ends_dot dst" "norm src \<noteq> norm dst"
    "is_dir (map_of fs (butlast (norm dst)))" "src \<noteq> []" "dst \<noteq> []"
  shows "shutil_copy2 now src dst fs =
     Inr (if map_of fs (norm dst) = None
          then touch now (butlast (norm dst)) (AList.update (norm dst) (File c m now) fs)
          else AList.update (norm dst) (File c m now) fs)"
proof -
  have nd: "\<not> os_path_isdir fs dst" using assms(3) by (simp add: isdir_iff)
  have ss: "stat fs src = Inr (File c m t)" using assms(1,2,7) by (simp add: stat_def)
  show ?thesis
  proof (cases "map_of fs (norm dst)")
    case None
    then have "stat fs dst = Inl (missing fs (norm dst))" using assms(8) by (simp add: stat_def)
    with None nd ss assms(4,5,6) show ?thesis
      by (simp add: shutil_copy2_def Let_def)
  next
    case (Some e)
    with assms(3) obtain c' m' t' where e: "e = File c' m' t'" by (cases e) auto
    with Some assms(4,8) have "stat fs dst = Inr (File c' m' t')" by (simp add: stat_def)
    with Some nd ss assms(5) show ?thesis
      by (simp add: shutil_copy2_def Let_def)
  qed
qed

section \<open>Changes stay at the replica root\<close>

lemma final_simps [simp]: "final (Inl (e, st)) = st" "final (Inr st) = st"
  by (simp_all add: final_def)



lemma uo_disk: "disk st' = disk st \<Longrightarrow> unchanged_outside R st st'"
  by (simp add: unchanged_outside_def)

lemma log_and_print_disk: "disk (final (log_and_print m st)) = disk st"
  by (simp add: log_and_print_def split: log_target.splits)

lemma log_and_print_disk': "log_and_print m st = Inr st' \<Longrightarrow> disk st' = disk st"
  using log_and_print_disk [of m st] by simp















lemma for_each_res:
  assumes "\<And>s. G s (Inr s)" "\<And>a b r. G a (Inr b) \<Longrightarrow> G b r \<Longrightarrow> G a r"
    "\<And>x s. x \<in> set xs \<Longrightarrow> G s (body x s)"
  shows "G st (for_each body xs st)"
  using assms(3)
proof (induction xs arbitrary: st)
  case Nil
  then show ?case by (simp add: assms(1))
next
  case (Cons x xs)
  show ?case
  proof (cases "body x st")
    case (Inl e)
    with Cons.prems [of x st] show ?thesis by simp
  next
    case (Inr st')
    with Cons.prems [of x st] have "G st (Inr st')" by simp
    moreover have "G st' (for_each body xs st')"
      by (rule Cons.IH) (simp add: Cons.prems)
    ultimately show ?thesis using Inr assms(2) by auto
  qed
qed

lemma bind_res:
  assumes "G st a" "\<And>s. a = Inr s \<Longrightarrow> G s (k s)"
    "\<And>a b r. G a (Inr b) \<Longrightarrow> G b r \<Longrightarrow> G a r"
  shows "G st (case a of Inl e \<Rightarrow> Inl e | Inr s \<Rightarrow> k s)"
  using assms by (cases a) auto

lemma copy_walk_res:
  assumes r: "\<And>s. G s (Inr s)" and t: "\<And>a b r. G a (Inr b) \<Longrightarrow> G b r \<Longrightarrow> G a r"
    and q: "\<And>p d. Q p \<Longrightarrow> Q (p @ [d])"
  shows "(\<And>p dirs files s. Q p \<Longrightarrow> walk_scan (disk s) p = Some (dirs, files)
            \<Longrightarrow> G s (copy_body src rep p dirs files s))
         \<Longrightarrow> Q dirpath \<Longrightarrow> copy_walk n src rep dirpath st = Some res \<Longrightarrow> G st res"
    and "(\<And>p dirs files s. Q p \<Longrightarrow> walk_scan (disk s) p = Some (dirs, files)
            \<Longrightarrow> G s (copy_body src rep p dirs files s))
         \<Longrightarrow> Q dirpath \<Longrightarrow> copy_walk_dirs n src rep dirpath ds st = Some res \<Longrightarrow> G st res"
proof (induction n src rep dirpath st and n src rep dirpath ds st arbitrary: res and res
    rule: copy_walk_copy_walk_dirs.induct)
  case (1 src rep dirpath st)
  then show ?case by simp
next
  case (2 n src rep dirpath st)
  show ?case
  proof (cases "walk_scan (disk st) dirpath")
    case None
    with "2.prems" show ?thesis by (auto simp: r)
  next
    case (Some a)
    obtain dirs files where a: "a = (dirs, files)" by (cases a)
    have b: "G st (copy_body src rep dirpath dirs files st)"
      using "2.prems"(1) [OF "2.prems"(2)] Some a by simp
    show ?thesis
    proof (cases "copy_body src rep dirpath dirs files st")
      case (Inl e)
      with Some a "2.prems"(3) b show ?thesis by auto
    next
      case (Inr st')
      with Some a "2.prems"(3) have "copy_walk_dirs n src rep dirpath dirs st' = Some res" by simp
      from "2.IH" [OF Some a [symmetric] Inr "2.prems"(1,2) this] b Inr show ?thesis
        by (auto intro: t)
    qed
  qed
next
  case (3 n src rep dirpath st)
  then show ?case by (auto simp: r)
next
  case (4 n src rep dirpath d ds st)
  show ?case
  proof (cases "copy_walk n src rep (dirpath @ [d]) st")
    case None
    with "4.prems"(3) show ?thesis by simp
  next
    case (Some r1)
    have u1: "G st r1" by (rule "4.IH"(1) [OF "4.prems"(1) q [OF "4.prems"(2)] Some])
    show ?thesis
    proof (cases r1)
      case (Inl e)
      with Some "4.prems"(3) u1 show ?thesis by auto
    next
      case (Inr st')
      with Some "4.prems"(3) have "copy_walk_dirs n src rep dirpath ds st' = Some res" by simp
      from "4.IH"(2) [OF Some Inr "4.prems"(1,2) this] u1 Inr show ?thesis
        by (auto intro: t)
    qed
  qed
qed

lemma remove_walk_res:
  assumes r: "\<And>s. G s (Inr s)" and t: "\<And>a b r. G a (Inr b) \<Longrightarrow> G b r \<Longrightarrow> G a r"
    and q: "\<And>p d. Q p \<Longrightarrow> Q (p @ [d])"
  shows "(\<And>p dirs files s. Q p \<Longrightarrow> G s (remove_body src rep p dirs files s))
         \<Longrightarrow> Q dirpath \<Longrightarrow> remove_walk n src rep dirpath st = Some res \<Longrightarrow> G st res"
    and "(\<And>p dirs files s. Q p \<Longrightarrow> G s (remove_body src rep p dirs files s))
         \<Longrightarrow> Q dirpath \<Longrightarrow> remove_walk_dirs n src rep dirpath ds st = Some res \<Longrightarrow> G st res"
proof (induction n src rep dirpath st and n src rep dirpath ds st arbitrary: res and res
    rule: remove_walk_remove_walk_dirs.induct)
  case (1 src rep dirpath st)
  then show ?case by simp
next
  case (2 n src rep dirpath st)
  show ?case
  proof (cases "walk_scan (disk st) dirpath")
    case None
    with "2.prems" show ?thesis by (auto simp: r)
  next
    case (Some a)
    obtain dirs files where a: "a = (dirs, files)" by (cases a)
    show ?thesis
    proof (cases "remove_walk_dirs n src rep dirpath dirs st")
      case None
      with Some a "2.prems"(3) show ?thesis by simp
    next
      case (Some r1)
      have u1: "G st r1"
        by (rule "2.IH" [OF \<open>walk_scan (disk st) dirpath = Some a\<close> a [symmetric] "2.prems"(1,2) Some])
      show ?thesis
      proof (cases r1)
        case (Inl e)
        with Some \<open>walk_scan (disk st) dirpath = Some a\<close> a "2.prems"(3) u1 show ?thesis by auto
      next
        case (Inr st')
        with Some \<open>walk_scan (disk st) dirpath = Some a\<close> a "2.prems"(3)
        have "res = remove_body src rep dirpath dirs files st'" by simp
        moreover have "G st' (remove_body src rep dirpath dirs files st')"
          by (rule "2.prems"(1) [OF "2.prems"(2)])
        ultimately show ?thesis using u1 Inr
          by (auto intro: t)
      qed
    qed
  qed
next
  case (3 n src rep dirpath st)
  then show ?case by (auto simp: r)
next
  case (4 n src rep dirpath d ds st)
  show ?case
  proof (cases "remove_walk n src rep (dirpath @ [d]) st")
    case None
    with "4.prems"(3) show ?thesis by simp
  next
    case (Some r1)
    have u1: "G st r1" by (rule "4.IH"(1) [OF "4.prems"(1) q [OF "4.prems"(2)] Some])
    show ?thesis
    proof (cases r1)
      case (Inl e)
      with Some "4.prems"(3) u1 show ?thesis by auto
    next
      case (Inr st')
      with Some "4.prems"(3) have "remove_walk_dirs n src rep dirpath ds st' = Some res" by simp
      from "4.IH"(2) [OF Some Inr "4.prems"(1,2) this] u1 Inr show ?thesis
        by (auto intro: t)
    qed
  qed
qed










section \<open>Errors of the Pruner\<close>

lemma stat_error: "stat fs p = Inl e \<Longrightarrow> e = NotADirectoryError \<or> e = FileNotFoundError"
  by (auto simp: stat_def missing_def split: option.splits if_splits)

lemma log_and_print_error: "log_and_print m st = Inl (e, st') \<Longrightarrow> e = IsADirectoryError \<and> st' = st"
  by (auto simp: log_and_print_def split: log_target.splits)

lemma os_remove_error: "os_remove now p fs = Inl e \<Longrightarrow> e \<noteq> DirectoryNotEmpty"
  by (auto simp: os_remove_def split: sum.splits entry.splits dest: stat_error)

lemma remove_file_not_nonempty: "remove_file rr fsp f st \<noteq> Inl (DirectoryNotEmpty, st')"
  by (auto simp: remove_file_def Let_def split: sum.splits
      dest: os_remove_error log_and_print_error)

lemma os_listdir_Inr:
  "os_listdir fs p = Inr names \<longleftrightarrow> p \<noteq> [] \<and> is_dir (map_of fs (norm p)) \<and> names = map fst (scandir fs (norm p))"
  by (auto simp: os_listdir_def stat_def is_dir_iff split: sum.splits entry.splits option.splits)

lemma os_listdir_error: "os_listdir fs p = Inl e \<Longrightarrow> e \<noteq> DirectoryNotEmpty"
  by (auto simp: os_listdir_def split: sum.splits entry.splits dest: stat_error)

lemma os_rmdir_error:
  "os_rmdir now p fs = Inl e \<Longrightarrow> scandir fs (norm p) = [] \<Longrightarrow> e \<noteq> DirectoryNotEmpty"
  by (auto simp: os_rmdir_def split: sum.splits entry.splits if_splits dest: stat_error)

lemma remove_dir_not_nonempty: "remove_dir rr fsp d st \<noteq> Inl (DirectoryNotEmpty, st')"
  by (auto simp: remove_dir_def Let_def os_listdir_Inr split: sum.splits if_splits
      dest: os_listdir_error os_rmdir_error log_and_print_error)

lemma remove_dir_nonempty_kept:
  assumes "is_dir (map_of (disk st) (norm (rr @ [d])))"
    "scandir (disk st) (norm (rr @ [d])) \<noteq> [] \<or> os_path_exists (disk st) (fsp @ [d])"
  shows "remove_dir rr fsp d st = Inr st"
proof -
  have "os_listdir (disk st) (rr @ [d]) = Inr (map fst (scandir (disk st) (norm (rr @ [d]))))"
    using assms(1) by (simp add: os_listdir_Inr)
  with assms(2) show ?thesis by (auto simp: remove_dir_def Let_def)
qed

lemma remove_body_not_nonempty:
  "remove_body src rep rr dirs files st \<noteq> Inl (DirectoryNotEmpty, st')"
proof -
  let ?G = "\<lambda>(s::state) r. \<forall>s'. r \<noteq> Inl (DirectoryNotEmpty, s')"
  have "?G st (remove_body src rep rr dirs files st)"
    unfolding remove_body_def Let_def
    apply (rule bind_res [where G = ?G])
      apply (rule for_each_res [where G = ?G])
        apply (auto simp: remove_file_not_nonempty)[3]
     apply (rule for_each_res [where G = ?G])
       apply (auto simp: remove_dir_not_nonempty)[3]
    apply simp
    done
  then show ?thesis by simp
qed

lemma remove_walk_not_nonempty:
  assumes "remove_walk n src rep dirpath st = Some r"
  shows "r \<noteq> Inl (DirectoryNotEmpty, st')"
proof -
  let ?G = "\<lambda>(s::state) r. \<forall>s'. r \<noteq> Inl (DirectoryNotEmpty, s')"
  have "?G st r"
    by (rule remove_walk_res(1) [where G = ?G and Q = "\<lambda>p. True", OF _ _ _ _ _ assms])
      (auto simp: remove_body_not_nonempty)
  then show ?thesis by simp
qed

section \<open>One file of the Reconciler\<close>



section \<open>One entry of the Pruner\<close>

lemma walk_scan_dir:
  assumes "is_dir (map_of fs (norm p))" "p \<noteq> []"
  shows "walk_scan fs p =
     Some (map fst (filter (\<lambda>(n, e). is_dir (Some e)) (scandir fs (norm p))),
           map fst (filter (\<lambda>(n, e). \<not> is_dir (Some e)) (scandir fs (norm p))))"
  using assms by (auto simp: walk_scan_def stat_def is_dir_iff)

lemma norm_Cons [simp]: "norm (a # p) = (if a = ''.'' then norm p else a # norm p)"
  by (simp add: norm_def)

lemma relpath_self [simp]: "relpath p p = [''.'']"
  by (simp add: relpath_def)

lemma relpath_below [simp]: "q \<noteq> [] \<Longrightarrow> relpath (p @ q) p = q"
  by (simp add: relpath_def)

lemma log_and_print_file:
  "log_file s = Log_File ls \<Longrightarrow>
   log_and_print e s = Inr (s\<lparr>log_file := Log_File (ls @ [e]), console := console s @ [e]\<rparr>)"
  by (simp add: log_and_print_def)

lemma not_exists_None: "map_of fs (norm p) = None \<Longrightarrow> \<not> os_path_exists fs p"
  by (simp add: exists_iff)

lemma remove_file_removes:
  assumes "map_of (disk st) (norm (fsp @ [f])) = None"
    and "is_file (map_of (disk st) (norm (rr @ [f])))" and "f \<noteq> ''.''"
    and "log_file st = Log_File ls"
  shows "remove_file rr fsp f st
     = Inr (removed (norm (rr @ [f])) (File_Deleted (fsp @ [f]) (clock st)) st)"
proof -
  have "os_remove (clock st) (rr @ [f]) (disk st)
      = Inr (touch (clock st) (butlast (norm (rr @ [f]))) (AList.delete (norm (rr @ [f])) (disk st)))"
    using assms(2,3) by (simp add: os_remove_Inr)
  then show ?thesis
    using not_exists_None [OF assms(1)] assms(4)
    by (simp add: remove_file_def Let_def removed_def log_and_print_file)
qed

lemma remove_dir_removes:
  assumes "map_of (disk st) (norm (fsp @ [d])) = None"
    and "is_dir (map_of (disk st) (norm (rr @ [d])))"
    and "scandir (disk st) (norm (rr @ [d])) = []"
    and "log_file st = Log_File ls"
  shows "remove_dir rr fsp d st
     = Inr (removed (norm (rr @ [d])) (Folder_Deleted (rr @ [d]) (clock st)) st)"
proof -
  have l: "os_listdir (disk st) (rr @ [d]) = Inr []"
    using assms(2,3) by (simp add: os_listdir_Inr)
  have "os_rmdir (clock st) (rr @ [d]) (disk st)
      = Inr (touch (clock st) (butlast (norm (rr @ [d]))) (AList.delete (norm (rr @ [d])) (disk st)))"
    using assms(2,3) by (simp add: os_rmdir_Inr)
  then show ?thesis
    using not_exists_None [OF assms(1)] assms(4) l
    by (simp add: remove_dir_def Let_def removed_def log_and_print_file)
qed

lemma removed_simps [simp]:
  "clock (removed q e st) = clock st"
  "console (removed q e st) = console st @ [e]"
  "log_file st = Log_File ls \<Longrightarrow> log_file (removed q e st) = Log_File (ls @ [e])"
  by (simp_all add: removed_def)

lemma removed_disk:
  "disk (removed q e st) = touch (clock st) (butlast q) (AList.delete q (disk st))"
  by (simp add: removed_def)

lemma removed_at:
  "map_of (disk (removed q e st)) y =
     (if y = q then None
      else if y = butlast q \<and> is_dir (map_of (disk st) y) then Some (Dir (clock st))
      else map_of (disk st) y)"
  by (simp add: removed_disk delete_at [OF refl])

section \<open>A pass whose log cannot be opened\<close>

lemma grows_refl: "grows s (Inr s)"
  by (simp add: grows_def)

lemma grows_trans: "grows a (Inr b) \<Longrightarrow> grows b r \<Longrightarrow> grows a r"
  by (fastforce simp: grows_def)

lemma growsI:
  assumes "r = Inr st \<or> (\<exists>e. r = Inl (e, st)) \<or> (\<exists>e d. r = Inl (e, st\<lparr>disk := d\<rparr>))
      \<or> (\<exists>d. r = Inr (st\<lparr>disk := d\<rparr>)) \<or> (\<exists>m d. r = log_and_print m (st\<lparr>disk := d\<rparr>))"
  shows "grows st r"
  using assms by (auto simp: grows_def log_and_print_def)

lemma copy_file_grows: "grows st (copy_file sr frp f st)"
  by (rule growsI) (auto simp: copy_file_def Let_def split: sum.splits)

lemma copy_dir_grows: "grows st (copy_dir sr frp d st)"
  by (rule growsI) (auto simp: copy_dir_def Let_def split: sum.splits prod.splits)



lemma for_each_grows:
  assumes "\<And>x s. grows s (body x s)"
  shows "grows st (for_each body xs st)"
  by (rule for_each_res [where G = grows]) (simp_all add: grows_refl assms, erule (1) grows_trans)

lemma makedirs_grows:
  "grows st (case os_makedirs (clock st) p (disk st) of
               Inl (e, d) \<Rightarrow> Inl (e, st\<lparr>disk := d\<rparr>)
             | Inr d \<Rightarrow> Inr (st\<lparr>disk := d\<rparr>))"
  by (rule growsI) (auto split: sum.splits prod.splits)

lemma copy_body_grows: "grows st (copy_body src rep sr dirs files st)"
  unfolding copy_body_def Let_def
  apply (rule bind_res [where G = grows])
    apply (auto simp: grows_refl makedirs_grows)[1]
   apply (rule bind_res [where G = grows])
     apply (rule for_each_grows)
     apply (rule copy_file_grows)
    apply (rule for_each_grows)
    apply (rule copy_dir_grows)
   apply (erule (1) grows_trans)
  apply (erule (1) grows_trans)
  done


lemma copy_walk_grows:
  assumes "copy_walk n src rep dirpath st = Some r"
  shows "grows st r"
proof (rule copy_walk_res(1) [where G = grows and Q = "\<lambda>p. True"])
  show "copy_walk n src rep dirpath st = Some r" by (rule assms)
qed (simp_all add: grows_refl copy_body_grows, erule (1) grows_trans)




subsection \<open>Composition\<close>







subsection \<open>The change is made before it is reported\<close>

lemma copy_of_same: "copy_of (Some (File c m t)) (Some (File c m t'))"
  by (simp add: copy_of_def)





lemma norm_relpath [simp]: "norm (relpath (r @ q) r) = norm q"
  by (simp add: relpath_def)

lemma counterpart_below [simp]: "counterpart src rep (src @ q) = rep @ q"
  by (simp add: counterpart_def)

subsection \<open>One round in both runs\<close>









subsection \<open>The walks in both runs\<close>











section \<open>The source tree is left alone\<close>




section \<open>Directories that are not empty stay\<close>

text \<open>
  C6. The Pruner never removes a directory that is not empty: in the round for a replica
  directory that still holds an entry when it is looked at, or whose source counterpart
  exists, nothing is changed and nothing is reported; and no run of
  \<^verbatim>\<open>remove_files_and_dirs\<close> ever raises the error of \<^verbatim>\<open>os.rmdir\<close> on a directory that is
  not empty.
\<close>

theorem nonempty_directory_is_kept:
  "(is_dir (map_of (disk st) (norm (replica_root @ [replica_dir])))
      \<and> (scandir (disk st) (norm (replica_root @ [replica_dir])) \<noteq> []
           \<or> os_path_exists (disk st) (folder_source_path @ [replica_dir]))
     \<longrightarrow> remove_dir replica_root folder_source_path replica_dir st = Inr st)
   \<and> (remove_files_and_dirs n folder_source folder_replica st = Some r
     \<longrightarrow> (\<forall>st'. r \<noteq> Inl (DirectoryNotEmpty, st')))"
  using remove_dir_nonempty_kept remove_walk_not_nonempty
  by (auto simp: remove_files_and_dirs_def)

theorem nonempty_directory_is_kept_witness:
  "\<exists>r. remove_files_and_dirs 3 [''s''] [''r''] (start fs_cascade) = Some r
     \<and> (\<forall>st'. r \<noteq> Inl (DirectoryNotEmpty, st'))
     \<and> remove_dir [''r''] [''s'', ''.''] ''dir'' (start fs_cascade) = Inr (start fs_cascade)"
proof -
  have d: "is_dir (map_of (disk (start fs_cascade)) (norm ([''r''] @ [''dir''])))
      \<and> (scandir (disk (start fs_cascade)) (norm ([''r''] @ [''dir''])) \<noteq> []
         \<or> os_path_exists (disk (start fs_cascade)) ([''s'', ''.''] @ [''dir'']))"
    by code_simp
  have "remove_files_and_dirs 3 [''s''] [''r''] (start fs_cascade) \<noteq> None" by code_simp
  then obtain r where r: "remove_files_and_dirs 3 [''s''] [''r''] (start fs_cascade) = Some r"
    by blast
  from nonempty_directory_is_kept
    [of "start fs_cascade" "[''r'']" "''dir''" "[''s'', ''.'']" 3 "[''s'']" "[''r'']" r] d r
  show ?thesis by blast
qed

section \<open>A failing event sink\<close>




section \<open>Change detection by modification time\<close>



section \<open>Directories made without a report\<close>

text \<open>
  C3 at an input where it fails. The replica \<^verbatim>\<open>r\<close> does not exist; the Reconciler makes it
  when it visits the source root (line 67) and records nothing for it, while the directory
  \<^verbatim>\<open>a\<close> made in the loop over \<^verbatim>\<open>source_dirs\<close> (lines 96 to 101) is recorded.
\<close>

theorem replica_root_made_silently:
  "map_of (disk (start fs_fresh)) [''r''] = None
   \<and> (case copy_files_and_dirs 5 [''s''] [''r''] (start fs_fresh) of
        Some (Inr st') \<Rightarrow>
          is_dir (map_of (disk st') [''r'']) \<and> is_dir (map_of (disk st') [''r'', ''a''])
          \<and> console st' = [Folder_Created [''r'', ''.'', ''a''] 9,
                             File_Created [''s'', ''a'', ''b.txt''] 4]
      | _ \<Rightarrow> False)"
  by code_simp

section \<open>Invocation\<close>

text \<open>
  C9, as the program behaves. An invocation with fewer than four arguments, or whose third
  argument is refused by \<^verbatim>\<open>int\<close>, prints one of the two messages and ends the process
  before any pass has run, so the state is untouched; the exit status is 0, the status of
  \<^verbatim>\<open>sys.exit()\<close> without an argument. This holds whatever \<^verbatim>\<open>int\<close> accepts.
\<close>

theorem malformed_invocation_exits_early:
  assumes "length argv < 5 \<or> int_str (argv ! 3) = None"
  shows "sync_folders int_str i n argv st
         = Some (Exited (Exit (if length argv \<le> 3 then four_arguments_message
                               else if int_str (argv ! 3) = None then integer_message
                               else four_arguments_message) 0) st)"
  using assms
  by (auto simp: sync_folders_def getting_args_def split: option.splits)

theorem malformed_invocation_exits_early_witness:
  "sync_folders py_int 3 7 [''synchronizer.py'', ''source'', ''replica'', ''ten'', ''logfile'']
      \<lparr>disk = [([], Dir 0)], log_file = Log_File [], console = [], clock = 1\<rparr>
    = Some (Exited (Exit integer_message 0)
         \<lparr>disk = [([], Dir 0)], log_file = Log_File [], console = [], clock = 1\<rparr>)"
proof -
  have "py_int ([''synchronizer.py'', ''source'', ''replica'', ''ten'', ''logfile''] ! 3) = None"
    by code_simp
  then show ?thesis
    using malformed_invocation_exits_early
      [of "[''synchronizer.py'', ''source'', ''replica'', ''ten'', ''logfile'']" py_int 3 7]
    by simp
qed

text \<open>C9 as stated asks for a non-zero exit status: with no argument at all the program
  prints its message and ends with status 0.\<close>

theorem exit_status_counterexample:
  "sync_folders py_int 3 7 [''synchronizer.py'']
      \<lparr>disk = [([], Dir 0)], log_file = Log_File [], console = [], clock = 1\<rparr>
    = Some (Exited (Exit four_arguments_message 0)
         \<lparr>disk = [([], Dir 0)], log_file = Log_File [], console = [], clock = 1\<rparr>)
   \<and> status (Exit four_arguments_message 0) = 0"
  by (simp add: sync_folders_def getting_args_def)



end
